theory Spec2Isabelle
  imports Main "HOL-Library.Word" "HOL-Library.List_Lexorder" "HOL-Library.Multiset"
begin

section \<open>JavaScript values\<close>

text \<open>
  A JavaScript string is a sequence of UTF-16 code units, and \<open>s.length\<close> counts
  them. The string literals of \<open>main.ts\<close> are written out as their code units.
\<close>

type_synonym js_string = "16 word list"

text \<open>
  The fields \<open>username\<close> and \<open>password\<close> destructured from the request body
  (line 53) are strings, as \<open>interface User\<close> declares them, or absent
  (\<open>undefined\<close> or \<open>null\<close>): \<open>None\<close>. \<open>falsy v\<close> is the JavaScript test \<open>!v\<close>
  on such a value: an absent value and the empty string are falsy. A body that is not
  an object, and fields of other JSON types, are outside the model.
\<close>

definition falsy :: "js_string option \<Rightarrow> bool" where
  "falsy v = (case v of None \<Rightarrow> True | Some s \<Rightarrow> s = [])"

text \<open>The literal \<open>"users"\<close> (lines 40 and 64).\<close>

definition str_users :: js_string where
  "str_users = [0x75, 0x73, 0x65, 0x72, 0x73]"

text \<open>The messages of the four \<open>ctx.throw\<close> calls (lines 57, 60, 67, 84).\<close>

definition msg_empty :: js_string where
  "msg_empty = [0x7528, 0x6237, 0x540D, 0x548C, 0x5BC6, 0x7801, 0x4E0D, 0x80FD, 0x4E3A, 0x7A7A]"

definition msg_short :: js_string where
  "msg_short = [0x5BC6, 0x7801, 0x81F3, 0x5C11, 0x9700, 0x8981, 0x36, 0x4F4D]"

definition msg_exists :: js_string where
  "msg_exists = [0x7528, 0x6237, 0x5DF2, 0x5B58, 0x5728]"

definition msg_failed :: js_string where
  "msg_failed = [0x7528, 0x6237, 0x6CE8, 0x518C, 0x5931, 0x8D25]"

text \<open>The literals \<open>"HS256"\<close> and \<open>"JWT"\<close> (line 105) and the separator of a token.\<close>

definition str_HS256 :: js_string where
  "str_HS256 = [0x48, 0x53, 0x32, 0x35, 0x36]"

definition str_JWT :: js_string where
  "str_JWT = [0x4A, 0x57, 0x54]"

definition str_dot :: js_string where
  "str_dot = [0x2E]"

section \<open>Data model (lines 8-12)\<close>

text \<open>\<open>createdAt\<close> is a \<open>Date\<close>; it is held as its \<open>getTime()\<close>, milliseconds since the epoch.\<close>

record User =
  username :: js_string
  password :: js_string
  createdAt :: int

section \<open>Configuration (lines 15-19)\<close>

text \<open>The default secret \<open>"super_secret_key_123!"\<close>.\<close>

definition default_secret :: js_string where
  "default_secret = [0x73, 0x75, 0x70, 0x65, 0x72, 0x5F, 0x73, 0x65, 0x63, 0x72, 0x65, 0x74,
     0x5F, 0x6B, 0x65, 0x79, 0x5F, 0x31, 0x32, 0x33, 0x21]"

text \<open>
  \<open>JWT_SECRET: env.JWT_SECRET || "super_secret_key_123!"\<close>, from the value of the
  environment variable (\<open>None\<close> when it is not set), read once when the process
  starts. \<open>PORT\<close> is used by the listener only and is left out.
\<close>

record config =
  JWT_SECRET :: js_string

definition CONFIG :: "js_string option \<Rightarrow> config" where
  "CONFIG v =
     \<lparr>JWT_SECRET = (if falsy v then default_secret
                     else case v of Some s \<Rightarrow> s | None \<Rightarrow> default_secret)\<rparr>"

section \<open>The key-value store\<close>

text \<open>
  Deno KV identifies a key by its serialised bytes. A string part is serialised as the
  byte 2, the UTF-8 form of the string with every zero byte followed by the byte 255,
  and a closing zero byte. The UTF-8 form of a JavaScript string takes a surrogate pair
  as one code point and replaces every surrogate that is not part of a pair by U+FFFD,
  so different strings can give the same key.
\<close>

definition is_high_surrogate :: "16 word \<Rightarrow> bool" where
  "is_high_surrogate u \<longleftrightarrow> 0xD800 \<le> u \<and> u \<le> 0xDBFF"

definition is_low_surrogate :: "16 word \<Rightarrow> bool" where
  "is_low_surrogate u \<longleftrightarrow> 0xDC00 \<le> u \<and> u \<le> 0xDFFF"

fun code_points :: "js_string \<Rightarrow> nat list" where
  "code_points [] = []"
| "code_points [u] =
     [if is_high_surrogate u \<or> is_low_surrogate u then 0xFFFD else unat u]"
| "code_points (h # l # us) =
     (if is_high_surrogate h \<and> is_low_surrogate l
      then (0x10000 + (unat h - 0xD800) * 0x400 + (unat l - 0xDC00)) # code_points us
      else (if is_high_surrogate h \<or> is_low_surrogate h then 0xFFFD else unat h)
           # code_points (l # us))"

definition utf8_bytes :: "nat \<Rightarrow> 8 word list" where
  "utf8_bytes c =
     (if c < 0x80 then [of_nat c]
      else if c < 0x800 then [of_nat (0xC0 + c div 0x40), of_nat (0x80 + c mod 0x40)]
      else if c < 0x10000
      then [of_nat (0xE0 + c div 0x1000), of_nat (0x80 + c div 0x40 mod 0x40),
            of_nat (0x80 + c mod 0x40)]
      else [of_nat (0xF0 + c div 0x40000), of_nat (0x80 + c div 0x1000 mod 0x40),
            of_nat (0x80 + c div 0x40 mod 0x40), of_nat (0x80 + c mod 0x40)])"

definition utf8 :: "js_string \<Rightarrow> 8 word list" where
  "utf8 s = concat (map utf8_bytes (code_points s))"

type_synonym kv_key = "js_string list"

definition encode_part :: "js_string \<Rightarrow> 8 word list" where
  "encode_part s =
     0x02 # concat (map (\<lambda>b. if b = 0 then [0x00, 0xFF] else [b]) (utf8 s)) @ [0x00]"

definition encode_key :: "kv_key \<Rightarrow> 8 word list" where
  "encode_key k = concat (map encode_part k)"

text \<open>
  A key of more than 2048 bytes is refused: \<open>get\<close> and \<open>commit\<close> throw a
  \<open>TypeError\<close>. The limit of 64 KiB on a value is not modelled: a record whose key is
  within the limit, with bcrypt's hash of 60 characters, is far below it. A database
  that cannot be reached, where every call throws, is not modelled either.
\<close>

datatype js_error = TypeError

definition key_too_large :: "kv_key \<Rightarrow> bool" where
  "key_too_large k \<longleftrightarrow> 2048 < length (encode_key k)"

text \<open>
  The store holds, for each key, a value and the versionstamp of the commit that wrote
  it. The entries are kept in the order of their serialised keys, the order in which
  \<open>list\<close> yields them; \<open>version\<close> is the versionstamp of the last commit.
\<close>

record kv_entry =
  entry_value :: User
  versionstamp :: nat

record Kv =
  entries :: "(8 word list \<times> kv_entry) list"
  version :: nat

definition openKv :: Kv where
  "openKv = \<lparr>entries = [], version = 0\<rparr>"

text \<open>The entry that the store holds for a key, if any.\<close>

definition kv_find :: "Kv \<Rightarrow> kv_key \<Rightarrow> kv_entry option" where
  "kv_find kv k = map_of (entries kv) (encode_key k)"

text \<open>
  \<open>denoKv.get(key)\<close>: \<open>Inr None\<close> is the result whose value and versionstamp are
  null, \<open>Inl TypeError\<close> the exception for a key that is too large.
\<close>

definition kv_get :: "Kv \<Rightarrow> kv_key \<Rightarrow> js_error + kv_entry option" where
  "kv_get kv k = (if key_too_large k then Inl TypeError else Inr (kv_find kv k))"

text \<open>
  \<open>denoKv.list({ prefix })\<close>: the entries whose serialised key extends the serialised
  prefix, in key order.
\<close>

definition key_has_prefix :: "8 word list \<Rightarrow> 8 word list \<Rightarrow> bool" where
  "key_has_prefix p k = (length p < length k \<and> take (length p) k = p)"

definition kv_list :: "Kv \<Rightarrow> kv_key \<Rightarrow> (8 word list \<times> kv_entry) list" where
  "kv_list kv p = filter (\<lambda>(k, e). key_has_prefix (encode_key p) k) (entries kv)"

text \<open>Writing one key: an entry under that key is replaced, a new key is put in key order.\<close>

fun put_entry ::
  "8 word list \<Rightarrow> kv_entry \<Rightarrow> (8 word list \<times> kv_entry) list \<Rightarrow> (8 word list \<times> kv_entry) list" where
  "put_entry k e [] = [(k, e)]"
| "put_entry k e ((k', e') # es) =
     (if k = k' then (k, e) # es
      else if k < k' then (k, e) # (k', e') # es
      else (k', e') # put_entry k e es)"

text \<open>
  An atomic operation collects checks and mutations. \<open>commit\<close> throws when one of
  their keys is too large; otherwise it applies the mutations if every check holds (the
  key's current versionstamp is the one given, \<open>None\<close> for a key with no entry), and
  changes nothing and reports \<open>ok = False\<close> if one does not.
\<close>

record atomic_op =
  checks :: "(kv_key \<times> nat option) list"
  mutations :: "(kv_key \<times> User) list"

definition atomic :: atomic_op where
  "atomic = \<lparr>checks = [], mutations = []\<rparr>"

definition check :: "kv_key \<times> nat option \<Rightarrow> atomic_op \<Rightarrow> atomic_op" where
  "check c ao = ao\<lparr>checks := checks ao @ [c]\<rparr>"

definition set_mutation :: "kv_key \<Rightarrow> User \<Rightarrow> atomic_op \<Rightarrow> atomic_op" where
  "set_mutation k u ao = ao\<lparr>mutations := mutations ao @ [(k, u)]\<rparr>"

definition check_holds :: "Kv \<Rightarrow> kv_key \<times> nat option \<Rightarrow> bool" where
  "check_holds kv c = (map_option versionstamp (kv_find kv (fst c)) = snd c)"

definition commit :: "Kv \<Rightarrow> atomic_op \<Rightarrow> js_error + bool \<times> Kv" where
  "commit kv ao =
     (if list_ex key_too_large (map fst (checks ao) @ map fst (mutations ao))
      then Inl TypeError
      else if list_all (check_holds kv) (checks ao)
      then Inr (True,
            \<lparr>entries = fold (\<lambda>(k, u). put_entry (encode_key k)
                                  \<lparr>entry_value = u, versionstamp = Suc (version kv)\<rparr>)
                           (mutations ao) (entries kv),
             version = Suc (version kv)\<rparr>)
      else Inr (False, kv))"

section \<open>The libraries and the clock\<close>

text \<open>
  djwt's \<open>create(header, payload, key)\<close> returns the compact serialisation: the encoded
  header, the encoded payload and the signature of the two under the header's algorithm,
  joined by dots. The encoders and the signing primitive are parameters; \<open>create\<close>
  with a string key is taken to return a token for every header and payload.
\<close>

record jwt_header =
  alg :: js_string
  typ' :: js_string

record jwt_payload =
  sub :: js_string
  iat :: int
  exp :: int

record djwt =
  encode_header :: "jwt_header \<Rightarrow> js_string"
  encode_payload :: "jwt_payload \<Rightarrow> js_string"
  sign :: "js_string \<Rightarrow> js_string \<Rightarrow> js_string \<Rightarrow> js_string"

definition signing_input :: "djwt \<Rightarrow> jwt_header \<Rightarrow> jwt_payload \<Rightarrow> js_string" where
  "signing_input lib h p = encode_header lib h @ str_dot @ encode_payload lib p"

definition create :: "djwt \<Rightarrow> jwt_header \<Rightarrow> jwt_payload \<Rightarrow> js_string \<Rightarrow> js_string" where
  "create lib h p key =
     signing_input lib h p @ str_dot @ sign lib (alg h) key (signing_input lib h p)"

text \<open>
  What one request takes from outside the handler: the process environment, bcrypt's
  \<open>hashSync\<close> as it behaves in this call (it draws a fresh salt), djwt, and the clock.
  The handler reads the clock three times: \<open>new Date()\<close> at line 74 and \<open>Date.now()\<close>
  at lines 108 and 109; each reading is a field of its own.
\<close>

record env =
  env_JWT_SECRET :: "js_string option"
  hashSync :: "js_string \<Rightarrow> js_string"
  jwt_lib :: djwt
  new_Date :: int
  Date_now_iat :: int
  Date_now_exp :: int

section \<open>createJwt (lines 103-113)\<close>

definition createJwt_header :: jwt_header where
  "createJwt_header = \<lparr>alg = str_HS256, typ' = str_JWT\<rparr>"

definition createJwt_payload :: "env \<Rightarrow> js_string \<Rightarrow> jwt_payload" where
  "createJwt_payload e uname =
     \<lparr>sub = uname, iat = Date_now_iat e, exp = Date_now_exp e + 3600000\<rparr>"

definition createJwt :: "env \<Rightarrow> js_string \<Rightarrow> js_string" where
  "createJwt e uname =
     create (jwt_lib e) createJwt_header (createJwt_payload e uname)
       (JWT_SECRET (CONFIG (env_JWT_SECRET e)))"

section \<open>POST /api/register (lines 51-94)\<close>

record register_body =
  body_username :: "js_string option"
  body_password :: "js_string option"

record public_user =
  public_username :: js_string

record register_response =
  success :: bool
  token :: js_string
  user :: public_user

text \<open>
  A handler ends in \<open>ctx.throw(status, message)\<close>, in an exception of a library call
  that it does not catch, which oak answers with status 500, or it sets the response
  body.
\<close>

datatype response = Throw nat js_string | Uncaught js_error | Body register_response

text \<open>
  The handler up to the \<open>await\<close> of the commit (lines 52-75): validation, the lookup
  of the user in the store as it is at that moment, and the new record. It returns the
  thrown response, or the local variables \<open>username\<close>, \<open>userKey\<close> and \<open>user\<close>.
  The last case of the case distinction cannot occur, since an absent field is falsy.
\<close>

definition register_lookup ::
  "env \<Rightarrow> register_body \<Rightarrow> Kv \<Rightarrow> response + (js_string \<times> kv_key \<times> User)" where
  "register_lookup e body kv =
     (if falsy (body_username body) \<or> falsy (body_password body)
      then Inl (Throw 400 msg_empty)
      else case (body_username body, body_password body) of
          (Some uname, Some pw) \<Rightarrow>
            if length pw < 6 then Inl (Throw 400 msg_short)
            else let userKey = [str_users, uname] in
              (case kv_get kv userKey of
                 Inl err \<Rightarrow> Inl (Uncaught err)
               | Inr (Some existingUser) \<Rightarrow> Inl (Throw 409 msg_exists)
               | Inr None \<Rightarrow>
                   Inr (uname, userKey,
                        \<lparr>username = uname, password = hashSync e pw, createdAt = new_Date e\<rparr>))
        | _ \<Rightarrow> Inl (Throw 400 msg_empty))"

text \<open>
  The rest of the handler (lines 77-93): the atomic check-and-set on the store as it is
  when the commit runs, then the token and the response body.
\<close>

definition register_commit ::
  "env \<Rightarrow> js_string \<times> kv_key \<times> User \<Rightarrow> Kv \<Rightarrow> response \<times> Kv" where
  "register_commit e locals kv =
     (case locals of (uname, userKey, u) \<Rightarrow>
        (case commit kv (set_mutation userKey u (check (userKey, None) atomic)) of
           Inl err \<Rightarrow> (Uncaught err, kv)
         | Inr (ok, kv') \<Rightarrow>
             if \<not> ok then (Throw 500 msg_failed, kv')
             else (Body \<lparr>success = True, token = createJwt e uname,
                          user = \<lparr>public_username = uname\<rparr>\<rparr>, kv')))"

text \<open>
  One request: the lookup reads the store \<open>seen\<close>, the commit runs on the store \<open>kv\<close>,
  which other requests may have changed in between. The result is the response and the
  store after the request.
\<close>

definition register_at :: "env \<Rightarrow> register_body \<Rightarrow> Kv \<Rightarrow> Kv \<Rightarrow> response \<times> Kv" where
  "register_at e body seen kv =
     (case register_lookup e body seen of
        Inl r \<Rightarrow> (r, kv)
      | Inr locals \<Rightarrow> register_commit e locals kv)"

text \<open>A request that no other request interleaves with.\<close>

definition register :: "env \<Rightarrow> register_body \<Rightarrow> Kv \<Rightarrow> response \<times> Kv" where
  "register e body kv = register_at e body kv kv"

text \<open>
  The stores the service can reach from an empty database: the only route that writes
  is the registration, whose lookup may have read any earlier store.
\<close>

inductive reachable :: "Kv \<Rightarrow> bool" where
  reachable_open: "reachable openKv"
| reachable_register:
    "reachable seen \<Longrightarrow> reachable kv \<Longrightarrow> register_at e body seen kv = (r, kv') \<Longrightarrow> reachable kv'"

section \<open>GET / (lines 37-50)\<close>

text \<open>Lines 39-42: the values of the entries under the prefix \<open>["users"]\<close>.\<close>

definition list_users :: "Kv \<Rightarrow> User list" where
  "list_users kv = map (\<lambda>(k, e). entry_value e) (kv_list kv [str_users])"

text \<open>The comparator of line 45-46.\<close>

definition by_createdAt :: "User \<Rightarrow> User \<Rightarrow> int" where
  "by_createdAt a b = createdAt b - createdAt a"

text \<open>
  \<open>Array.prototype.sort\<close> with a comparator is a stable sort: \<open>x\<close> goes before the
  first later element \<open>y\<close> that it does not compare greater than.
\<close>

fun js_insert :: "('a \<Rightarrow> 'a \<Rightarrow> int) \<Rightarrow> 'a \<Rightarrow> 'a list \<Rightarrow> 'a list" where
  "js_insert cmp x [] = [x]"
| "js_insert cmp x (y # ys) =
     (if cmp x y \<le> 0 then x # y # ys else y # js_insert cmp x ys)"

definition js_sort :: "('a \<Rightarrow> 'a \<Rightarrow> int) \<Rightarrow> 'a list \<Rightarrow> 'a list" where
  "js_sort cmp xs = foldr (js_insert cmp) xs []"

text \<open>\<open>users.sort(...).slice(0, 10)\<close>, the \<open>users\<close> handed to the template.\<close>

definition recent_users :: "Kv \<Rightarrow> User list" where
  "recent_users kv = take 10 (js_sort by_createdAt (list_users kv))"

text \<open>
  The handler: \<open>renderFile("views/index.eta", { users, timestamp })\<close>. The template
  is a parameter; it is handed the stored records as they are, with their \<open>password\<close>
  field. \<open>timestamp\<close> is the value of \<open>new Date().toLocaleString()\<close>.
\<close>

definition index_handler :: "(User list \<Rightarrow> js_string \<Rightarrow> 'page) \<Rightarrow> js_string \<Rightarrow> Kv \<Rightarrow> 'page" where
  "index_handler template timestamp kv = template (recent_users kv) timestamp"

text \<open>
  What a store holds apart from the password hashes and the versionstamps: the keys, in
  their order, with the username and \<open>createdAt\<close> of each record.
\<close>

definition listed_fields :: "User \<Rightarrow> js_string \<times> int" where
  "listed_fields u = (username u, createdAt u)"

definition public_entry :: "8 word list \<times> kv_entry \<Rightarrow> 8 word list \<times> js_string \<times> int" where
  "public_entry p = (fst p, username (entry_value (snd p)), createdAt (entry_value (snd p)))"

definition public_entries :: "Kv \<Rightarrow> (8 word list \<times> js_string \<times> int) list" where
  "public_entries kv = map public_entry (entries kv)"

section \<open>The invariant of the store\<close>

text \<open>
  The entries are in strictly increasing key order, and every record sits under the
  serialised key \<open>["users", username]\<close> of its own username.
\<close>

definition kv_inv :: "Kv \<Rightarrow> bool" where
  "kv_inv kv \<longleftrightarrow>
     sorted_wrt (<) (map fst (entries kv)) \<and>
     (\<forall>(k, x) \<in> set (entries kv). k = encode_key [str_users, username (entry_value x)])"

section \<open>Example inputs\<close>

text \<open>
  Concrete inputs on which the handlers are evaluated below. The strings are
  \<open>"alice"\<close>, \<open>"hunter2"\<close>, \<open>"bob"\<close> and \<open>"abc"\<close>. In \<open>example_env\<close> the library
  functions are arbitrary stand-ins (they are inputs of the model, not bcrypt or
  HMAC-SHA-256), the variable \<open>JWT_SECRET\<close> is not set, and the clock advances by one
  millisecond between the two readings of \<open>createJwt\<close>.
\<close>

definition str_alice :: js_string where
  "str_alice = [0x61, 0x6C, 0x69, 0x63, 0x65]"

definition str_hunter2 :: js_string where
  "str_hunter2 = [0x68, 0x75, 0x6E, 0x74, 0x65, 0x72, 0x32]"

definition str_bob :: js_string where
  "str_bob = [0x62, 0x6F, 0x62]"

definition str_abc :: js_string where
  "str_abc = [0x61, 0x62, 0x63]"

definition example_env :: env where
  "example_env =
     \<lparr>env_JWT_SECRET = None,
      hashSync = (\<lambda>pw. 0x24 # rev pw),
      jwt_lib = \<lparr>encode_header = alg, encode_payload = sub, sign = (\<lambda>a key input. a @ key)\<rparr>,
      new_Date = 1000, Date_now_iat = 1000, Date_now_exp = 1001\<rparr>"

definition body_alice :: register_body where
  "body_alice = \<lparr>body_username = Some str_alice, body_password = Some str_hunter2\<rparr>"

definition body_bob :: register_body where
  "body_bob = \<lparr>body_username = Some str_bob, body_password = Some str_abc\<rparr>"


text \<open>The store after \<open>"alice"\<close> has registered, and a request with an empty username.\<close>

definition kv_alice :: Kv where
  "kv_alice = snd (register example_env body_alice openKv)"

definition body_empty_username :: register_body where
  "body_empty_username = \<lparr>body_username = Some [], body_password = Some str_hunter2\<rparr>"

text \<open>
  Twelve users \<open>"a"\<close> to \<open>"l"\<close>, each with its letter six times as the password,
  registered one after the other at the times 1 to 12 in the order l, a, k, b, j, c, i,
  d, h, e, g, f; the store after the twelve registrations; and the twelve records in the
  order of their registration.
\<close>

definition example_body :: "16 word \<Rightarrow> register_body" where
  "example_body c = \<lparr>body_username = Some [c], body_password = Some (replicate 6 c)\<rparr>"

definition register_example :: "16 word \<times> int \<Rightarrow> Kv \<Rightarrow> Kv" where
  "register_example p kv =
     snd (register (example_env\<lparr>new_Date := snd p\<rparr>) (example_body (fst p)) kv)"

definition example_user :: "16 word \<Rightarrow> int \<Rightarrow> User" where
  "example_user c t =
     \<lparr>username = [c], password = hashSync example_env (replicate 6 c), createdAt = t\<rparr>"

definition example_entry :: "16 word \<times> int \<Rightarrow> 8 word list \<times> kv_entry" where
  "example_entry p =
     (encode_key [str_users, [fst p]],
      \<lparr>entry_value = example_user (fst p) (snd p), versionstamp = nat (snd p)\<rparr>)"

definition kv_twelve :: Kv where
  "kv_twelve = fold register_example
        [(0x6C, 1), (0x61, 2), (0x6B, 3), (0x62, 4), (0x6A, 5), (0x63, 6),
         (0x69, 7), (0x64, 8), (0x68, 9), (0x65, 10), (0x67, 11), (0x66, 12)] openKv"

definition twelve_users :: "User list" where
  "twelve_users = map (\<lambda>(c, t). example_user c t)
        [(0x6C, 1), (0x61, 2), (0x6B, 3), (0x62, 4), (0x6A, 5), (0x63, 6),
         (0x69, 7), (0x64, 8), (0x68, 9), (0x65, 10), (0x67, 11), (0x66, 12)]"

text \<open>The store after \<open>"alice"\<close> has registered when \<open>hashSync\<close> is another function.\<close>

definition kv_alice_other_hash :: Kv where
  "kv_alice_other_hash =
     snd (register (example_env\<lparr>hashSync := (\<lambda>pw. pw @ pw)\<rparr>) body_alice openKv)"

text \<open>
  Two usernames that are one surrogate each, \<open>"\ud800"\<close> and \<open>"\ud801"\<close>, and the
  store after the first of them has registered; a username of 680 times U+4E2D, whose
  key has 2049 bytes.
\<close>

definition body_d800 :: register_body where
  "body_d800 = \<lparr>body_username = Some [0xD800], body_password = Some str_hunter2\<rparr>"

definition body_d801 :: register_body where
  "body_d801 = \<lparr>body_username = Some [0xD801], body_password = Some str_hunter2\<rparr>"

definition kv_d800 :: Kv where
  "kv_d800 = snd (register example_env body_d800 openKv)"

definition str_long :: js_string where
  "str_long = replicate 680 0x4E2D"

definition body_long :: register_body where
  "body_long = \<lparr>body_username = Some str_long, body_password = Some str_hunter2\<rparr>"

text \<open>
  Two templates: one that prints the username and \<open>createdAt\<close> of every user it is
  handed, and one that prints the records as they are.
\<close>

definition template_public :: "User list \<Rightarrow> js_string \<Rightarrow> (js_string \<times> int) list \<times> js_string" where
  "template_public users timestamp = (map listed_fields users, timestamp)"

definition template_records :: "User list \<Rightarrow> js_string \<Rightarrow> User list \<times> js_string" where
  "template_records users timestamp = (users, timestamp)"

section \<open>Facts about the store\<close>

lemma map_of_put_entry: "map_of (put_entry k e es) = (map_of es)(k \<mapsto> e)"
  by (induction es) (auto simp: fun_eq_iff)

lemma keys_put_entry: "fst ` set (put_entry k e es) = insert k (fst ` set es)"
proof (induction es)
  case Nil
  then show ?case by simp
next
  case (Cons p es)
  obtain k' e' where p: "p = (k', e')" by (cases p)
  show ?case using Cons.IH by (simp add: p insert_commute)
qed

lemma set_put_entry_fresh:
  "k \<notin> fst ` set es \<Longrightarrow> set (put_entry k e es) = insert (k, e) (set es)"
proof (induction es)
  case Nil
  then show ?case by simp
next
  case (Cons p es)
  obtain k' e' where p: "p = (k', e')" by (cases p)
  from Cons.prems have "k \<noteq> k'" and "k \<notin> fst ` set es" by (auto simp: p)
  then show ?case using Cons.IH by (simp add: p insert_commute)
qed

lemma sorted_put_entry:
  "sorted_wrt (<) (map fst es) \<Longrightarrow> sorted_wrt (<) (map fst (put_entry k e es))"
proof (induction es)
  case Nil
  then show ?case by simp
next
  case (Cons p es)
  obtain k' e' where p: "p = (k', e')" by (cases p)
  have tail: "sorted_wrt (<) (map fst es)" and head: "\<forall>j \<in> fst ` set es. k' < j"
    using Cons.prems by (auto simp: p)
  consider "k = k'" | "k < k'" | "k' < k" by (cases k k' rule: linorder_cases) auto
  then show ?case
  proof cases
    case 1
    then show ?thesis using Cons.prems by (simp add: p)
  next
    case 2
    then show ?thesis using Cons.prems by (auto simp: p)
  next
    case 3
    then have "\<forall>j \<in> fst ` set (put_entry k e es). k' < j"
      using head by (simp add: keys_put_entry)
    then show ?thesis
      using 3 Cons.IH [OF tail] by (auto simp: p)
  qed
qed

lemma kv_find_None_iff: "kv_find kv k = None \<longleftrightarrow> encode_key k \<notin> fst ` set (entries kv)"
  by (simp add: kv_find_def map_of_eq_None_iff)

lemma kv_get_Some: "kv_get kv k = Inr (Some x) \<longleftrightarrow> \<not> key_too_large k \<and> kv_find kv k = Some x"
  by (simp add: kv_get_def)

lemma kv_get_None: "kv_get kv k = Inr None \<longleftrightarrow> \<not> key_too_large k \<and> kv_find kv k = None"
  by (simp add: kv_get_def)

lemma commit_check_set:
  "commit kv (set_mutation key u (check (key, None) atomic)) =
     (if key_too_large key then Inl TypeError
      else if kv_find kv key = None
      then Inr (True,
             \<lparr>entries = put_entry (encode_key key)
                  \<lparr>entry_value = u, versionstamp = Suc (version kv)\<rparr> (entries kv),
              version = Suc (version kv)\<rparr>)
      else Inr (False, kv))"
  by (simp add: commit_def set_mutation_def check_def atomic_def check_holds_def)

section \<open>The outcomes of a registration\<close>

text \<open>
  The six ways a request ends, in the order of the handler: the two validation errors,
  the key that the store refuses, the conflict found by the lookup, the commit whose
  check fails, and success.
\<close>

lemma register_at_cases:
  "register_at e body seen kv =
     (if body_username body = None \<or> body_username body = Some [] \<or>
         body_password body = None \<or> body_password body = Some []
      then (Throw 400 msg_empty, kv)
      else if length (the (body_password body)) < 6 then (Throw 400 msg_short, kv)
      else if key_too_large [str_users, the (body_username body)]
      then (Uncaught TypeError, kv)
      else if kv_find seen [str_users, the (body_username body)] \<noteq> None
      then (Throw 409 msg_exists, kv)
      else if kv_find kv [str_users, the (body_username body)] \<noteq> None
      then (Throw 500 msg_failed, kv)
      else (Body \<lparr>success = True, token = createJwt e (the (body_username body)),
                   user = \<lparr>public_username = the (body_username body)\<rparr>\<rparr>,
            \<lparr>entries = put_entry (encode_key [str_users, the (body_username body)])
                 \<lparr>entry_value = \<lparr>username = the (body_username body),
                                   password = hashSync e (the (body_password body)),
                                   createdAt = new_Date e\<rparr>,
                  versionstamp = Suc (version kv)\<rparr> (entries kv),
             version = Suc (version kv)\<rparr>))"
  by (auto simp: register_at_def register_lookup_def register_commit_def commit_check_set
        kv_get_def falsy_def Let_def split: option.splits)

text \<open>The keys of the example usernames.\<close>

lemma encode_users: "encode_part str_users = [2, 0x75, 0x73, 0x65, 0x72, 0x73, 0]"
  by (simp add: encode_part_def utf8_def utf8_bytes_def str_users_def
      is_high_surrogate_def is_low_surrogate_def)

lemma encode_alice: "encode_part str_alice = [2, 0x61, 0x6C, 0x69, 0x63, 0x65, 0]"
  by (simp add: encode_part_def utf8_def utf8_bytes_def str_alice_def
      is_high_surrogate_def is_low_surrogate_def)

lemma encode_lone_surrogates:
  "encode_part [0xD800] = [2, 0xEF, 0xBF, 0xBD, 0]"
  "encode_part [0xD801] = [2, 0xEF, 0xBF, 0xBD, 0]"
  by (simp_all add: encode_part_def utf8_def utf8_bytes_def
      is_high_surrogate_def is_low_surrogate_def)

lemma key_alice_fits: "\<not> key_too_large [str_users, str_alice]"
  by (simp add: key_too_large_def encode_key_def encode_users encode_alice)

lemma key_lone_surrogates_fit:
  "\<not> key_too_large [str_users, [0xD800]]" "\<not> key_too_large [str_users, [0xD801]]"
  by (simp_all add: key_too_large_def encode_key_def encode_users encode_lone_surrogates)

lemma code_points_replicate:
  assumes "\<not> is_high_surrogate c" and "\<not> is_low_surrogate c"
  shows "code_points (replicate n c) = replicate n (unat c)"
proof (induction n)
  case 0
  then show ?case by simp
next
  case (Suc n)
  then show ?case using assms by (cases n) simp_all
qed

lemma length_encode_part: "length (utf8 s) + 2 \<le> length (encode_part s)"
proof -
  have "length bs \<le> length (concat (map (\<lambda>b. if b = 0 then [0x00, 0xFF] else [b]) bs))"
    for bs :: "8 word list"
    by (induction bs) auto
  then show ?thesis by (simp add: encode_part_def)
qed

lemma key_long_too_large: "key_too_large [str_users, str_long]"
proof -
  have "code_points (replicate 680 (0x4E2D :: 16 word))
      = replicate 680 (unat (0x4E2D :: 16 word))"
    by (rule code_points_replicate) (simp_all add: is_high_surrogate_def is_low_surrogate_def)
  then have "length (utf8 str_long) = 2040"
    by (simp add: str_long_def utf8_def utf8_bytes_def length_concat sum_list_replicate)
  then show ?thesis
    using length_encode_part [of str_long]
    by (simp add: key_too_large_def encode_key_def encode_users)
qed

lemma kv_alice_eq:
  "kv_alice = \<lparr>entries = [(encode_key [str_users, str_alice],
       \<lparr>entry_value = \<lparr>username = str_alice, password = hashSync example_env str_hunter2,
                        createdAt = 1000\<rparr>, versionstamp = 1\<rparr>)], version = 1\<rparr>"
  using key_alice_fits
  by (simp add: kv_alice_def register_def register_at_cases body_alice_def
      str_hunter2_def openKv_def kv_find_def example_env_def) (simp add: str_alice_def)

lemma kv_d800_eq:
  "kv_d800 = \<lparr>entries = [(encode_key [str_users, [0xD800]],
       \<lparr>entry_value = \<lparr>username = [0xD800], password = hashSync example_env str_hunter2,
                        createdAt = 1000\<rparr>, versionstamp = 1\<rparr>)], version = 1\<rparr>"
  using key_lone_surrogates_fit
  by (simp add: kv_d800_def register_def register_at_cases body_d800_def
      str_hunter2_def openKv_def kv_find_def example_env_def)

lemma reachable_kv_alice: "reachable kv_alice"
proof -
  have "register_at example_env body_alice openKv openKv
      = (fst (register example_env body_alice openKv), kv_alice)"
    by (simp add: kv_alice_def register_def)
  with reachable_open reachable_open show ?thesis by (rule reachable_register)
qed

lemma reachable_kv_d800: "reachable kv_d800"
proof -
  have "register_at example_env body_d800 openKv openKv
      = (fst (register example_env body_d800 openKv), kv_d800)"
    by (simp add: kv_d800_def register_def)
  with reachable_open reachable_open show ?thesis by (rule reachable_register)
qed

section \<open>Validation of the registration request\<close>





section \<open>One record per username\<close>

lemma kv_inv_open: "kv_inv openKv"
  by (simp add: kv_inv_def openKv_def)

lemma register_at_changed:
  assumes "register_at e body seen kv = (r, kv')" and "kv' \<noteq> kv"
  shows "\<exists>uname pw. body_username body = Some uname \<and> body_password body = Some pw
     \<and> \<not> key_too_large [str_users, uname]
     \<and> kv_find kv [str_users, uname] = None
     \<and> entries kv' = put_entry (encode_key [str_users, uname])
          \<lparr>entry_value = \<lparr>username = uname, password = hashSync e pw, createdAt = new_Date e\<rparr>,
           versionstamp = Suc (version kv)\<rparr> (entries kv)
     \<and> set (entries kv') = insert (encode_key [str_users, uname],
          \<lparr>entry_value = \<lparr>username = uname, password = hashSync e pw, createdAt = new_Date e\<rparr>,
           versionstamp = Suc (version kv)\<rparr>) (set (entries kv))"
  using assms
  by (auto simp: register_at_cases set_put_entry_fresh kv_find_None_iff
      simp del: put_entry.simps split: if_splits)

lemma kv_inv_register_at:
  assumes "kv_inv kv" and "register_at e body seen kv = (r, kv')"
  shows "kv_inv kv'"
proof (cases "kv' = kv")
  case True
  then show ?thesis using assms(1) by simp
next
  case False
  from register_at_changed [OF assms(2) False] obtain uname pw
    where kv': "entries kv' = put_entry (encode_key [str_users, uname])
          \<lparr>entry_value = \<lparr>username = uname, password = hashSync e pw, createdAt = new_Date e\<rparr>,
           versionstamp = Suc (version kv)\<rparr> (entries kv)"
      and set': "set (entries kv') = insert (encode_key [str_users, uname],
          \<lparr>entry_value = \<lparr>username = uname, password = hashSync e pw, createdAt = new_Date e\<rparr>,
           versionstamp = Suc (version kv)\<rparr>) (set (entries kv))"
    by blast
  have "sorted_wrt (<) (map fst (entries kv'))"
    using assms(1) unfolding kv' by (simp add: kv_inv_def sorted_put_entry)
  moreover have "\<forall>(k, x) \<in> set (entries kv'). k = encode_key [str_users, username (entry_value x)]"
    using assms(1) unfolding set' by (auto simp: kv_inv_def)
  ultimately show ?thesis by (simp add: kv_inv_def)
qed

lemma reachable_kv_inv: "reachable kv \<Longrightarrow> kv_inv kv"
  by (induction rule: reachable.induct) (auto intro: kv_inv_open kv_inv_register_at)

lemma distinct_all_equal: "distinct xs \<Longrightarrow> \<forall>x \<in> set xs. x = a \<Longrightarrow> length xs \<le> 1"
  by (cases xs; cases "tl xs") auto

lemma kv_inv_one_record:
  assumes "kv_inv kv"
  shows "length (filter (\<lambda>(k, x). username (entry_value x) = u) (entries kv)) \<le> 1"
proof -
  let ?sel = "filter (\<lambda>(k, x). username (entry_value x) = u) (entries kv)"
  from assms have "distinct (map fst (entries kv))"
    by (simp add: kv_inv_def strict_sorted_iff)
  then have "distinct (map fst ?sel)" by (rule distinct_map_filter)
  moreover have "\<forall>k \<in> set (map fst ?sel). k = encode_key [str_users, u]"
    using assms by (auto simp: kv_inv_def)
  ultimately have "length (map fst ?sel) \<le> 1" by (rule distinct_all_equal)
  then show ?thesis by simp
qed

lemma register_at_keeps:
  assumes "register_at e body seen kv = (r, kv')" and "kv_get kv k = Inr (Some x)"
  shows "kv_get kv' k = Inr (Some x)"
  using assms
  by (auto simp: register_at_cases kv_get_def kv_find_def map_of_put_entry split: if_splits)

text \<open>
  C1. In every reachable store the keys are distinct, there is at most one record for
  each username, and every record is under the serialised key \<open>["users", username]\<close>
  of its own username. A registration, whatever store its lookup has read, keeps every
  entry that \<open>get\<close> finds in the store as it is; it either leaves the store unchanged
  or adds one record, for the request's username, under a key for which \<open>get\<close>
  found no entry.
\<close>

theorem one_record_per_username:
  assumes "reachable kv"
  shows "distinct (map fst (entries kv))
    \<and> (\<forall>u. length (filter (\<lambda>(k, x). username (entry_value x) = u) (entries kv)) \<le> 1)
    \<and> (\<forall>k x. (k, x) \<in> set (entries kv) \<longrightarrow>
          k = encode_key [str_users, username (entry_value x)])
    \<and> (\<forall>e body seen r kv'. register_at e body seen kv = (r, kv') \<longrightarrow>
          (\<forall>k x. kv_get kv k = Inr (Some x) \<longrightarrow> kv_get kv' k = Inr (Some x))
          \<and> (kv' = kv \<or>
              (\<exists>uname x. body_username body = Some uname
                 \<and> kv_get kv [str_users, uname] = Inr None
                 \<and> username (entry_value x) = uname
                 \<and> set (entries kv') =
                     insert (encode_key [str_users, uname], x) (set (entries kv)))))"
proof -
  have inv: "kv_inv kv" using assms by (rule reachable_kv_inv)
  have 1: "distinct (map fst (entries kv))"
    using inv by (simp add: kv_inv_def strict_sorted_iff)
  have 2: "\<forall>u. length (filter (\<lambda>(k, x). username (entry_value x) = u) (entries kv)) \<le> 1"
    using kv_inv_one_record [OF inv] by blast
  have 3: "\<forall>k x. (k, x) \<in> set (entries kv) \<longrightarrow>
      k = encode_key [str_users, username (entry_value x)]"
    using inv by (auto simp: kv_inv_def)
  have 4: "kv' = kv \<or>
      (\<exists>uname x. body_username body = Some uname
         \<and> kv_get kv [str_users, uname] = Inr None
         \<and> username (entry_value x) = uname
         \<and> set (entries kv') = insert (encode_key [str_users, uname], x) (set (entries kv)))"
    if run: "register_at e body seen kv = (r, kv')" for e body seen r kv'
  proof (cases "kv' = kv")
    case True
    then show ?thesis by simp
  next
    case False
    from register_at_changed [OF run False] obtain uname pw
      where some: "body_username body = Some uname"
        and fits: "\<not> key_too_large [str_users, uname]"
        and fresh: "kv_find kv [str_users, uname] = None"
        and set': "set (entries kv') = insert (encode_key [str_users, uname],
          \<lparr>entry_value = \<lparr>username = uname, password = hashSync e pw, createdAt = new_Date e\<rparr>,
           versionstamp = Suc (version kv)\<rparr>) (set (entries kv))"
      by blast
    have "kv_get kv [str_users, uname] = Inr None"
      using fits fresh by (simp add: kv_get_def)
    moreover have "username (entry_value
        \<lparr>entry_value = \<lparr>username = uname, password = hashSync e pw, createdAt = new_Date e\<rparr>,
         versionstamp = Suc (version kv)\<rparr>) = uname"
      by simp
    ultimately show ?thesis using some set' by blast
  qed
  have 5: "(\<forall>k x. kv_get kv k = Inr (Some x) \<longrightarrow> kv_get kv' k = Inr (Some x))
          \<and> (kv' = kv \<or>
              (\<exists>uname x. body_username body = Some uname
                 \<and> kv_get kv [str_users, uname] = Inr None
                 \<and> username (entry_value x) = uname
                 \<and> set (entries kv') =
                     insert (encode_key [str_users, uname], x) (set (entries kv))))"
    if run: "register_at e body seen kv = (r, kv')" for e body seen r kv'
  proof
    show "\<forall>k x. kv_get kv k = Inr (Some x) \<longrightarrow> kv_get kv' k = Inr (Some x)"
      using register_at_keeps [OF run] by simp
  qed (rule 4 [OF run])
  have "\<forall>e body seen r kv'. register_at e body seen kv = (r, kv') \<longrightarrow>
          (\<forall>k x. kv_get kv k = Inr (Some x) \<longrightarrow> kv_get kv' k = Inr (Some x))
          \<and> (kv' = kv \<or>
              (\<exists>uname x. body_username body = Some uname
                 \<and> kv_get kv [str_users, uname] = Inr None
                 \<and> username (entry_value x) = uname
                 \<and> set (entries kv') =
                     insert (encode_key [str_users, uname], x) (set (entries kv))))"
    by (intro allI impI) (rule 5)
  with 1 2 3 show ?thesis by (intro conjI)
qed

theorem one_record_per_username_witness:
  "reachable kv_d800
   \<and> length (filter (\<lambda>(k, x). username (entry_value x) = [0xD800]) (entries kv_d800)) \<le> 1
   \<and> map fst (entries kv_d800) = [encode_key [str_users, [0xD801]]]
   \<and> kv_get kv_d800 [str_users, [0xD800]] \<noteq> Inr None
   \<and> kv_get (snd (register_at example_env body_d801 openKv kv_d800)) [str_users, [0xD800]]
       = kv_get kv_d800 [str_users, [0xD800]]"
proof -
  note facts = one_record_per_username [OF reachable_kv_d800]
  obtain r kv' where run: "register_at example_env body_d801 openKv kv_d800 = (r, kv')"
    by (cases "register_at example_env body_d801 openKv kv_d800")
  obtain x where x: "kv_get kv_d800 [str_users, [0xD800]] = Inr (Some x)"
    using key_lone_surrogates_fit by (simp add: kv_d800_eq kv_get_def kv_find_def)
  from facts run x have "kv_get kv' [str_users, [0xD800]] = Inr (Some x)" by blast
  moreover have "map fst (entries kv_d800) = [encode_key [str_users, [0xD801]]]"
    by (simp add: kv_d800_eq encode_key_def encode_lone_surrogates)
  ultimately show ?thesis
    using facts x run reachable_kv_d800 by simp
qed

section \<open>Atomicity of the registration\<close>

text \<open>
  C8. A registration that ends in a thrown error (400, 409, or 500 after a failed
  commit) or in an exception of the store leaves the store as it was; the store changes
  exactly when the response is the success body, and then the store has the complete
  record of the new user under a key that had no entry, and \<open>get\<close> answers as before
  for every key with other serialised bytes.
\<close>

theorem register_atomic:
  assumes "register_at e body seen kv = (r, kv')"
  shows "((\<exists>status m. r = Throw status m) \<longrightarrow> kv' = kv)
    \<and> ((\<exists>err. r = Uncaught err) \<longrightarrow> kv' = kv)
    \<and> ((\<exists>b. r = Body b) \<longleftrightarrow> kv' \<noteq> kv)
    \<and> ((\<exists>b. r = Body b) \<longrightarrow>
         (\<exists>uname pw. body_username body = Some uname \<and> body_password body = Some pw
            \<and> kv_get kv [str_users, uname] = Inr None
            \<and> kv_get kv' [str_users, uname] =
                 Inr (Some \<lparr>entry_value = \<lparr>username = uname, password = hashSync e pw,
                                             createdAt = new_Date e\<rparr>,
                            versionstamp = version kv'\<rparr>)
            \<and> (\<forall>k. encode_key k \<noteq> encode_key [str_users, uname] \<longrightarrow>
                  kv_get kv' k = kv_get kv k)))"
proof -
  have changed: "\<lparr>entries = es, version = Suc (version kv)\<rparr> \<noteq> kv" for es
  proof
    assume "\<lparr>entries = es, version = Suc (version kv)\<rparr> = kv"
    then have "version \<lparr>entries = es, version = Suc (version kv)\<rparr> = version kv" by simp
    then show False by simp
  qed
  show ?thesis
    using assms changed
    by (auto simp: register_at_cases kv_get_def kv_find_def map_of_put_entry
        simp del: put_entry.simps split: if_splits)
qed

theorem register_atomic_witness:
  "register_at example_env body_alice openKv kv_alice = (Throw 500 msg_failed, kv_alice)
   \<and> register_at example_env body_bob openKv kv_alice = (Throw 400 msg_short, kv_alice)
   \<and> register_at example_env body_alice kv_alice kv_alice = (Throw 409 msg_exists, kv_alice)
   \<and> register_at example_env body_long openKv kv_alice = (Uncaught TypeError, kv_alice)
   \<and> (\<exists>b. register_at example_env body_alice openKv openKv = (Body b, kv_alice))
   \<and> kv_alice \<noteq> openKv"
proof -
  have 1: "register_at example_env body_alice openKv kv_alice = (Throw 500 msg_failed, kv_alice)"
    using key_alice_fits
    by (simp add: register_at_cases body_alice_def str_hunter2_def openKv_def
        kv_find_def kv_alice_eq) (simp add: str_alice_def)
  have 2: "register_at example_env body_bob openKv kv_alice = (Throw 400 msg_short, kv_alice)"
    by (simp add: register_at_cases body_bob_def str_bob_def str_abc_def)
  have 3: "register_at example_env body_alice kv_alice kv_alice = (Throw 409 msg_exists, kv_alice)"
    using key_alice_fits
    by (simp add: register_at_cases body_alice_def str_hunter2_def
        kv_find_def kv_alice_eq) (simp add: str_alice_def)
  have 4: "register_at example_env body_long openKv kv_alice = (Uncaught TypeError, kv_alice)"
    using key_long_too_large
    by (simp add: register_at_cases body_long_def str_hunter2_def) (simp add: str_long_def)
  obtain r where 5: "register_at example_env body_alice openKv openKv = (r, kv_alice)"
    by (simp add: kv_alice_def register_def prod_eq_iff)
  have 6: "kv_alice \<noteq> openKv"
    by (simp add: kv_alice_eq openKv_def)
  from register_atomic [OF 5] 6 obtain b where "r = Body b" by blast
  with 1 2 3 4 5 6 register_atomic [OF 1] show ?thesis by simp
qed

section \<open>Registering the same username twice\<close>

text \<open>
  C2, as stated, fails for usernames that were never registered and pass the validation,
  with the valid password \<open>"hunter2"\<close>. For the username of 680 times U+4E2D, on the
  empty store, the store refuses the key and both registrations end in the exception,
  answered with 500. On the store whose only record has the username \<open>"\ud800"\<close>, the
  first registration of \<open>"\ud801"\<close> is answered with 409, since both usernames have
  the same key.
\<close>

theorem register_twice_counterexample:
  "6 \<le> length str_hunter2
   \<and> fst (register example_env body_long openKv) = Uncaught TypeError
   \<and> fst (register example_env body_long (snd (register example_env body_long openKv)))
       = Uncaught TypeError
   \<and> map (username \<circ> entry_value \<circ> snd) (entries kv_d800) = [[0xD800]]
   \<and> fst (register example_env body_d801 kv_d800) = Throw 409 msg_exists"
proof -
  have long: "register example_env body_long kv = (Uncaught TypeError, kv)" for kv
    using key_long_too_large
    by (simp add: register_def register_at_cases body_long_def str_hunter2_def)
      (simp add: str_long_def)
  have "fst (register example_env body_d801 kv_d800) = Throw 409 msg_exists"
    using key_lone_surrogates_fit
    by (simp add: register_def register_at_cases body_d801_def str_hunter2_def kv_d800_eq
        kv_find_def encode_key_def encode_lone_surrogates)
  moreover have "map (username \<circ> entry_value \<circ> snd) (entries kv_d800) = [[0xD800]]"
    by (simp add: kv_d800_eq)
  ultimately show ?thesis by (simp add: long str_hunter2_def)
qed

text \<open>
  C2, amended. For a non-empty username for whose key \<open>["users", username]\<close> the
  store's \<open>get\<close> answers that there is no entry (the key is within the limit of 2048
  bytes and no record is under it), and passwords of length at least 6, two
  registrations one after the other: the first returns the success body, after it
  \<open>get\<close> finds a record under the key, and the second is answered with 409 and
  leaves the store as the first left it.
\<close>

theorem register_twice:
  assumes "uname \<noteq> []" and "kv_get kv [str_users, uname] = Inr None"
    and "6 \<le> length pw" and "6 \<le> length pw'"
  shows "fst (register e \<lparr>body_username = Some uname, body_password = Some pw\<rparr> kv)
       = Body \<lparr>success = True, token = createJwt e uname,
               user = \<lparr>public_username = uname\<rparr>\<rparr>
    \<and> (\<exists>x. kv_get (snd (register e \<lparr>body_username = Some uname, body_password = Some pw\<rparr> kv))
         [str_users, uname] = Inr (Some x))
    \<and> register e' \<lparr>body_username = Some uname, body_password = Some pw'\<rparr>
         (snd (register e \<lparr>body_username = Some uname, body_password = Some pw\<rparr> kv))
       = (Throw 409 msg_exists,
          snd (register e \<lparr>body_username = Some uname, body_password = Some pw\<rparr> kv))"
proof -
  from assms(3,4) have "pw \<noteq> []" and "pw' \<noteq> []" by auto
  moreover from assms(2) have "\<not> key_too_large [str_users, uname]"
    and "kv_find kv [str_users, uname] = None"
    by (simp_all add: kv_get_None)
  ultimately show ?thesis
    using assms
    by (simp add: register_def register_at_cases kv_get_def kv_find_def map_of_put_entry
        del: put_entry.simps)
qed

theorem register_twice_witness:
  "fst (register example_env body_alice openKv)
       = Body \<lparr>success = True, token = createJwt example_env str_alice,
               user = \<lparr>public_username = str_alice\<rparr>\<rparr>
   \<and> register example_env body_alice kv_alice = (Throw 409 msg_exists, kv_alice)
   \<and> fst (register example_env body_d800 openKv)
       = Body \<lparr>success = True, token = createJwt example_env [0xD800],
               user = \<lparr>public_username = [0xD800]\<rparr>\<rparr>
   \<and> register example_env body_d800 kv_d800 = (Throw 409 msg_exists, kv_d800)"
proof -
  have "str_alice \<noteq> []" and "kv_get openKv [str_users, str_alice] = Inr None"
    and "6 \<le> length str_hunter2"
    using key_alice_fits
    by (simp_all add: str_alice_def str_hunter2_def kv_get_def kv_find_def openKv_def)
  note alice = register_twice [OF this this(3), of example_env example_env]
  have "[0xD800 :: 16 word] \<noteq> []" and "kv_get openKv [str_users, [0xD800]] = Inr None"
    and "6 \<le> length str_hunter2"
    using key_lone_surrogates_fit
    by (simp_all add: str_hunter2_def kv_get_def kv_find_def openKv_def)
  note d800 = register_twice [OF this this(3), of example_env example_env]
  from alice d800 show ?thesis
    by (simp add: body_alice_def kv_alice_def body_d800_def kv_d800_def)
qed

section \<open>The response to a successful registration\<close>

lemma createJwt_not_empty: "createJwt e uname \<noteq> []"
  by (simp add: createJwt_def create_def str_dot_def)

lemma createJwt_hashSync_update: "createJwt (e\<lparr>hashSync := h\<rparr>) uname = createJwt e uname"
  by (simp add: createJwt_def createJwt_payload_def)

text \<open>
  C7. When the input is valid, the key \<open>["users", username]\<close> is within the limit of
  2048 bytes, and \<open>get\<close> finds no entry under it in the store the lookup reads nor in
  the store the commit runs on, the response is the body
  \<open>{success: true, token, user: {username}}\<close> with the token of \<open>createJwt\<close> for that
  username; the token is not the empty string; and the response is the same for every
  other valid password and every other hash function: neither the password nor its hash
  is part of it.
\<close>

theorem register_success_response:
  assumes "body_username body = Some uname" and "uname \<noteq> []"
    and "body_password body = Some pw" and "6 \<le> length pw"
    and "length (encode_key [str_users, uname]) \<le> 2048"
    and "kv_get seen [str_users, uname] = Inr None"
    and "kv_get kv [str_users, uname] = Inr None"
  shows "fst (register_at e body seen kv)
       = Body \<lparr>success = True, token = createJwt e uname,
               user = \<lparr>public_username = uname\<rparr>\<rparr>
    \<and> createJwt e uname \<noteq> []
    \<and> (\<forall>pw' h. 6 \<le> length pw' \<longrightarrow>
          fst (register_at (e\<lparr>hashSync := h\<rparr>) (body\<lparr>body_password := Some pw'\<rparr>) seen kv)
            = fst (register_at e body seen kv))"
proof -
  from assms(4) have "pw \<noteq> []" by auto
  from assms(5) have fits: "\<not> key_too_large [str_users, uname]"
    by (simp add: key_too_large_def)
  from assms(6,7) have none: "kv_find seen [str_users, uname] = None"
    "kv_find kv [str_users, uname] = None"
    by (simp_all add: kv_get_None)
  have "fst (register_at (e\<lparr>hashSync := h\<rparr>) (body\<lparr>body_password := Some pw'\<rparr>) seen kv)
            = fst (register_at e body seen kv)" if "6 \<le> length pw'" for pw' h
  proof -
    from that have "pw' \<noteq> []" by auto
    with that assms(1-4) fits none \<open>pw \<noteq> []\<close> show ?thesis
      by (simp add: register_at_cases createJwt_hashSync_update del: put_entry.simps)
  qed
  with assms(1-4) fits none \<open>pw \<noteq> []\<close> show ?thesis
    by (simp add: register_at_cases createJwt_not_empty del: put_entry.simps)
qed

theorem register_success_response_witness:
  "fst (register_at example_env body_alice openKv openKv)
       = Body \<lparr>success = True, token = createJwt example_env str_alice,
               user = \<lparr>public_username = str_alice\<rparr>\<rparr>
   \<and> createJwt example_env str_alice \<noteq> []
   \<and> fst (register_at (example_env\<lparr>hashSync := (\<lambda>pw. pw)\<rparr>)
            (body_alice\<lparr>body_password := Some (str_alice @ str_alice)\<rparr>) openKv openKv)
       = fst (register_at example_env body_alice openKv openKv)"
proof -
  have "body_username body_alice = Some str_alice" and "str_alice \<noteq> []"
    and "body_password body_alice = Some str_hunter2" and "6 \<le> length str_hunter2"
    and "length (encode_key [str_users, str_alice]) \<le> 2048"
    and "kv_get openKv [str_users, str_alice] = Inr None"
    using key_alice_fits
    by (simp_all add: body_alice_def str_alice_def str_hunter2_def kv_get_def kv_find_def
        openKv_def key_too_large_def)
  from register_success_response [OF this this(6), of example_env]
  show ?thesis by (simp add: str_alice_def)
qed

section \<open>The token\<close>

text \<open>
  The token is signed with HS256 under the secret of \<open>CONFIG\<close>, and its payload has
  the username as \<open>sub\<close>. \<open>iat\<close> and \<open>exp\<close> come from two readings of the clock;
  when the two readings agree, \<open>exp\<close> is \<open>iat\<close> plus 3,600,000.
\<close>

lemma createJwt_token:
  "createJwt e uname =
     signing_input (jwt_lib e) \<lparr>alg = str_HS256, typ' = str_JWT\<rparr>
        \<lparr>sub = uname, iat = Date_now_iat e, exp = Date_now_exp e + 3600000\<rparr>
     @ str_dot @
     sign (jwt_lib e) str_HS256 (JWT_SECRET (CONFIG (env_JWT_SECRET e)))
       (signing_input (jwt_lib e) \<lparr>alg = str_HS256, typ' = str_JWT\<rparr>
          \<lparr>sub = uname, iat = Date_now_iat e, exp = Date_now_exp e + 3600000\<rparr>)"
  by (simp add: createJwt_def create_def createJwt_header_def createJwt_payload_def)

lemma createJwt_payload_one_reading:
  "Date_now_exp e = Date_now_iat e \<Longrightarrow>
     exp (createJwt_payload e uname) = iat (createJwt_payload e uname) + 3600000"
  by (simp add: createJwt_payload_def)

text \<open>
  C6. When the clock advances between the two readings, here from 1000 to 1001, the
  payload has \<open>iat = 1000\<close> and \<open>exp = 3601001\<close>, which is not \<open>iat + 3600000\<close>.
\<close>

theorem createJwt_expiry_after_tick:
  "sub (createJwt_payload example_env str_alice) = str_alice
   \<and> iat (createJwt_payload example_env str_alice) = 1000
   \<and> exp (createJwt_payload example_env str_alice) = 3601001
   \<and> exp (createJwt_payload example_env str_alice)
       \<noteq> iat (createJwt_payload example_env str_alice) + 3600000"
  by (simp add: createJwt_payload_def example_env_def)

section \<open>The stored password\<close>

text \<open>
  After a successful registration the \<open>password\<close> field of the stored record is
  \<open>hashSync\<close> of the submitted password.
\<close>

lemma register_stores_hash:
  assumes "register_at e body seen kv = (Body b, kv')"
  shows "\<exists>uname pw. body_username body = Some uname \<and> body_password body = Some pw
     \<and> map_option (password \<circ> entry_value) (kv_find kv' [str_users, uname])
         = Some (hashSync e pw)"
  using assms
  by (auto simp: register_at_cases kv_find_def map_of_put_entry
      simp del: put_entry.simps split: if_splits)

section \<open>The listing\<close>

text \<open>The sort of line 45 is the stable sort by descending \<open>createdAt\<close>.\<close>

lemma js_insert_by_createdAt:
  "js_insert by_createdAt x xs = insort_key (\<lambda>u. - createdAt u) x xs"
  by (induction xs) (simp_all add: by_createdAt_def)

lemma js_sort_by_createdAt: "js_sort by_createdAt xs = sort_key (\<lambda>u. - createdAt u) xs"
proof -
  have "js_insert by_createdAt = insort_key (\<lambda>u. - createdAt u)"
    by (intro ext) (rule js_insert_by_createdAt)
  then show ?thesis by (simp add: js_sort_def sort_key_def)
qed

lemma sorted_js_sort: "sorted (map (\<lambda>u. - createdAt u) (js_sort by_createdAt xs))"
  by (simp add: js_sort_by_createdAt)

lemma mset_js_sort: "mset (js_sort by_createdAt xs) = mset xs"
  by (simp add: js_sort_by_createdAt)

lemma length_js_sort: "length (js_sort by_createdAt xs) = length xs"
  by (simp add: js_sort_by_createdAt)

lemma descending_js_sort:
  "sorted_wrt (\<lambda>a b. createdAt b \<le> createdAt a) (js_sort by_createdAt xs)"
  using sorted_js_sort [of xs] by (simp add: sorted_map)

lemma mset_take_drop: "mset (take n xs) + mset (drop n xs) = mset xs"
  by (metis append_take_drop_id mset_append)

lemma js_sort_unique:
  assumes "mset us = mset xs" and "sorted_wrt (<) (map createdAt us)"
  shows "js_sort by_createdAt xs = rev us"
proof -
  let ?f = "\<lambda>u. - createdAt u"
  let ?s = "js_sort by_createdAt xs"
  have dist: "distinct (map createdAt us)"
    using assms(2) by (simp add: strict_sorted_iff)
  have inj: "inj_on ?f (set us)"
    using dist by (auto simp: inj_on_def distinct_map)
  have set_s: "set ?s = set (rev us)"
    using assms(1) mset_js_sort [of xs] by (metis set_rev set_mset_mset)
  have "mset (map ?f ?s) = mset (map ?f us)"
    using assms(1) by (simp add: mset_js_sort)
  moreover have dist_us: "distinct (map ?f us)"
    using dist inj by (simp add: distinct_map)
  ultimately have dist_s: "distinct (map ?f ?s)"
    by (metis mset_eq_imp_distinct_iff)
  have "sorted_wrt (\<lambda>a b. createdAt a < createdAt b) us"
    using assms(2) by (simp add: sorted_wrt_map)
  then have "sorted_wrt (\<lambda>a b. createdAt a \<le> createdAt b) us"
    by (rule sorted_wrt_mono_rel [rotated]) simp
  then have sorted_us: "sorted (map ?f (rev us))"
    by (simp add: sorted_map sorted_wrt_rev)
  have "inj_on ?f (set ?s \<union> set (rev us))"
    using inj set_s by simp
  then show ?thesis
    using sorted_js_sort [of xs] dist_s sorted_us dist_us set_s
    by (intro map_sorted_distinct_set_unique [of ?f]) (simp_all add: rev_map [symmetric])
qed

lemma after_take_sorted:
  assumes "sorted_wrt R xs" and "a \<in> set (take n xs)" and "b \<in># mset xs - mset (take n xs)"
  shows "R a b"
proof -
  have "mset xs - mset (take n xs) = mset (drop n xs)"
    using mset_take_drop [of n xs] by (metis add_diff_cancel_left')
  with assms(3) have "b \<in> set (drop n xs)" by simp
  moreover have "sorted_wrt R (take n xs @ drop n xs)" using assms(1) by simp
  ultimately show ?thesis
    using assms(2) unfolding sorted_wrt_append by blast
qed

text \<open>
  C4. The users handed to the template are sorted by descending \<open>createdAt\<close> and are
  at most 10: they are the first 10 of the stored users in that order, so no user left
  out is more recent than a user listed. A store with at most 10 users has all of them
  listed. When the stored users have distinct timestamps, the list is the 10 most
  recent in descending order of timestamp; for twelve users U1..U12 registered at
  increasing times these are U12 down to U3.
\<close>

theorem recent_users_sorted_top10:
  "sorted_wrt (\<lambda>a b. createdAt b \<le> createdAt a) (recent_users kv)
   \<and> length (recent_users kv) = min 10 (length (list_users kv))
   \<and> mset (recent_users kv) \<subseteq># mset (list_users kv)
   \<and> (\<forall>r \<in> set (recent_users kv).
        \<forall>u \<in># mset (list_users kv) - mset (recent_users kv). createdAt u \<le> createdAt r)
   \<and> (length (list_users kv) \<le> 10 \<longrightarrow> mset (recent_users kv) = mset (list_users kv))
   \<and> (\<forall>us. mset us = mset (list_users kv) \<and> sorted_wrt (<) (map createdAt us) \<longrightarrow>
         recent_users kv = take 10 (rev us))"
proof -
  let ?s = "js_sort by_createdAt (list_users kv)"
  have desc: "sorted_wrt (\<lambda>a b. createdAt b \<le> createdAt a) ?s"
    by (rule descending_js_sort)
  have 1: "sorted_wrt (\<lambda>a b. createdAt b \<le> createdAt a) (recent_users kv)"
    unfolding recent_users_def using desc by (rule sorted_wrt_take)
  have 2: "length (recent_users kv) = min 10 (length (list_users kv))"
    by (simp add: recent_users_def length_js_sort min.commute)
  have 3: "mset (recent_users kv) \<subseteq># mset (list_users kv)"
    using mset_take_drop [of 10 ?s] mset_js_sort [of "list_users kv"]
    unfolding recent_users_def by (metis mset_subset_eq_add_left)
  have 4: "\<forall>r \<in> set (recent_users kv).
        \<forall>u \<in># mset (list_users kv) - mset (recent_users kv). createdAt u \<le> createdAt r"
    using after_take_sorted [OF desc, of _ 10]
    by (simp add: recent_users_def mset_js_sort)
  have 5: "length (list_users kv) \<le> 10 \<longrightarrow> mset (recent_users kv) = mset (list_users kv)"
    by (simp add: recent_users_def length_js_sort mset_js_sort)
  have 6: "\<forall>us. mset us = mset (list_users kv) \<and> sorted_wrt (<) (map createdAt us) \<longrightarrow>
         recent_users kv = take 10 (rev us)"
    unfolding recent_users_def using js_sort_unique [of _ "list_users kv"] by metis
  from 1 2 3 4 5 6 show ?thesis by (intro conjI)
qed

text \<open>The store after the twelve example registrations.\<close>

lemma reachable_register_example: "reachable kv \<Longrightarrow> reachable (register_example p kv)"
proof -
  assume r: "reachable kv"
  have "register_at (example_env\<lparr>new_Date := snd p\<rparr>) (example_body (fst p)) kv kv
      = (fst (register (example_env\<lparr>new_Date := snd p\<rparr>) (example_body (fst p)) kv),
         register_example p kv)"
    by (simp add: register_example_def register_def)
  with r r show ?thesis by (rule reachable_register)
qed

lemma reachable_fold_register_example:
  "reachable kv \<Longrightarrow> reachable (fold register_example ps kv)"
  by (induction ps arbitrary: kv) (simp_all add: reachable_register_example)

lemma reachable_kv_twelve: "reachable kv_twelve"
  unfolding kv_twelve_def by (rule reachable_fold_register_example) (rule reachable_open)

lemma replicate_six_not_short: "replicate 6 c \<noteq> [] \<and> \<not> length (replicate 6 c) < 6"
  by simp

lemma register_example_fresh:
  assumes "\<not> key_too_large [str_users, [c]]" and "kv_find kv [str_users, [c]] = None"
  shows "register_example (c, t) kv =
     \<lparr>entries = put_entry (encode_key [str_users, [c]])
          \<lparr>entry_value = example_user c t, versionstamp = Suc (version kv)\<rparr> (entries kv),
      version = Suc (version kv)\<rparr>"
  using assms replicate_six_not_short [of c]
  by (simp add: register_example_def register_def register_at_cases example_body_def
      example_user_def del: put_entry.simps)

lemma encode_key_pair: "encode_key [a, b] = encode_part a @ encode_part b"
  by (simp add: encode_key_def)

lemma encode_letter_parts:
  "encode_part [0x61] = [2, 0x61, 0]" "encode_part [0x62] = [2, 0x62, 0]"
  "encode_part [0x63] = [2, 0x63, 0]" "encode_part [0x64] = [2, 0x64, 0]"
  "encode_part [0x65] = [2, 0x65, 0]" "encode_part [0x66] = [2, 0x66, 0]"
  "encode_part [0x67] = [2, 0x67, 0]" "encode_part [0x68] = [2, 0x68, 0]"
  "encode_part [0x69] = [2, 0x69, 0]" "encode_part [0x6A] = [2, 0x6A, 0]"
  "encode_part [0x6B] = [2, 0x6B, 0]" "encode_part [0x6C] = [2, 0x6C, 0]"
  by (simp_all add: encode_part_def utf8_def utf8_bytes_def
      is_high_surrogate_def is_low_surrogate_def)

lemmas encode_letters = encode_key_pair encode_users encode_letter_parts

lemma kv_twelve_eq:
  "kv_twelve =
     \<lparr>entries = map example_entry
        [(0x61, 2), (0x62, 4), (0x63, 6), (0x64, 8), (0x65, 10), (0x66, 12),
         (0x67, 11), (0x68, 9), (0x69, 7), (0x6A, 5), (0x6B, 3), (0x6C, 1)],
      version = 12\<rparr>"
  by (simp add: kv_twelve_def register_example_fresh example_entry_def openKv_def kv_find_def
      key_too_large_def encode_letters)

lemma encode_users_prefix: "encode_key [str_users] = [2, 0x75, 0x73, 0x65, 0x72, 0x73, 0]"
  by (simp add: encode_key_def encode_users)

lemma list_users_twelve:
  "list_users kv_twelve = map (\<lambda>(c, t). example_user c t)
        [(0x61, 2), (0x62, 4), (0x63, 6), (0x64, 8), (0x65, 10), (0x66, 12),
         (0x67, 11), (0x68, 9), (0x69, 7), (0x6A, 5), (0x6B, 3), (0x6C, 1)]"
  by (simp add: list_users_def kv_list_def kv_twelve_eq example_entry_def key_has_prefix_def
      encode_letters encode_users_prefix)

lemma kv_alice_other_hash_eq:
  "kv_alice_other_hash = \<lparr>entries = [(encode_key [str_users, str_alice],
       \<lparr>entry_value = \<lparr>username = str_alice, password = str_hunter2 @ str_hunter2,
                        createdAt = 1000\<rparr>, versionstamp = 1\<rparr>)], version = 1\<rparr>"
  using key_alice_fits
  by (simp add: kv_alice_other_hash_def register_def register_at_cases body_alice_def
      str_hunter2_def openKv_def kv_find_def example_env_def) (simp add: str_alice_def)

lemma list_users_alice:
  "list_users kv_alice = [\<lparr>username = str_alice, password = hashSync example_env str_hunter2,
      createdAt = 1000\<rparr>]"
  "list_users kv_alice_other_hash = [\<lparr>username = str_alice,
      password = str_hunter2 @ str_hunter2, createdAt = 1000\<rparr>]"
  by (simp_all add: list_users_def kv_list_def kv_alice_eq kv_alice_other_hash_eq
      key_has_prefix_def encode_key_pair encode_users_prefix encode_users encode_alice)

theorem recent_users_sorted_top10_witness:
  "reachable kv_twelve
   \<and> recent_users kv_twelve = map (\<lambda>(c, t). example_user c t)
        [(0x66, 12), (0x67, 11), (0x65, 10), (0x68, 9), (0x64, 8), (0x69, 7),
         (0x63, 6), (0x6A, 5), (0x62, 4), (0x6B, 3)]
   \<and> length (list_users kv_alice) \<le> 10
   \<and> mset (recent_users kv_alice) = mset (list_users kv_alice)"
proof -
  have "mset twelve_users = mset (list_users kv_twelve)"
    by (simp add: list_users_twelve twelve_users_def)
  moreover have "sorted_wrt (<) (map createdAt twelve_users)"
    by (simp add: twelve_users_def example_user_def)
  ultimately have "recent_users kv_twelve = take 10 (rev twelve_users)"
    using recent_users_sorted_top10 [of kv_twelve] by blast
  moreover have "length (list_users kv_alice) \<le> 10"
    by (simp add: list_users_alice)
  ultimately show ?thesis
    using recent_users_sorted_top10 [of kv_alice] reachable_kv_twelve
    by (simp add: twelve_users_def)
qed

section \<open>The listing and the password hashes\<close>

text \<open>
  The selection and the order of the listed users depend on the keys and on
  \<open>createdAt\<close> only.
\<close>

lemma js_insert_map:
  assumes "\<And>a b. cmp' (g a) (g b) = cmp a b"
  shows "map g (js_insert cmp x xs) = js_insert cmp' (g x) (map g xs)"
  by (induction xs) (simp_all add: assms)

lemma js_sort_map:
  assumes "\<And>a b. cmp' (g a) (g b) = cmp a b"
  shows "map g (js_sort cmp xs) = js_sort cmp' (map g xs)"
  unfolding js_sort_def by (induction xs) (simp_all add: js_insert_map [of cmp' g cmp] assms)

lemma recent_users_public:
  "map listed_fields (recent_users kv) =
     take 10 (js_sort (\<lambda>p q. snd q - snd p)
       (map snd (filter (\<lambda>(k, p). key_has_prefix (encode_key [str_users]) k)
          (public_entries kv))))"
proof -
  have "map listed_fields (list_users kv) =
      map snd (filter (\<lambda>(k, p). key_has_prefix (encode_key [str_users]) k) (public_entries kv))"
    unfolding list_users_def kv_list_def public_entries_def
    by (induction "entries kv" arbitrary: kv)
      (auto simp: case_prod_unfold comp_def filter_map public_entry_def listed_fields_def)
  moreover have "map listed_fields (js_sort by_createdAt xs)
      = js_sort (\<lambda>p q. snd q - snd p) (map listed_fields xs)" for xs
    by (rule js_sort_map) (simp add: by_createdAt_def listed_fields_def)
  moreover have "map listed_fields (recent_users kv)
      = take 10 (map listed_fields (js_sort by_createdAt (list_users kv)))"
    by (simp add: recent_users_def take_map)
  ultimately show ?thesis by simp
qed

text \<open>
  C5, as stated, fails: the handler hands the template the stored records with their
  password hashes. The two stores after \<open>"alice"\<close> has registered under two hash
  functions have the same keys, usernames and \<open>createdAt\<close> values, and the users
  handed to the template differ, as does the page of a template that prints the records
  as they are.
\<close>

theorem listing_counterexample:
  "public_entries kv_alice = public_entries kv_alice_other_hash
   \<and> recent_users kv_alice \<noteq> recent_users kv_alice_other_hash
   \<and> index_handler template_records [] kv_alice
       \<noteq> index_handler template_records [] kv_alice_other_hash"
proof -
  have "recent_users kv_alice \<noteq> recent_users kv_alice_other_hash"
    by (simp add: recent_users_def list_users_alice js_sort_def example_env_def str_hunter2_def)
  moreover have "public_entries kv_alice = public_entries kv_alice_other_hash"
    by (simp add: public_entries_def public_entry_def kv_alice_eq kv_alice_other_hash_eq)
  ultimately show ?thesis
    by (simp add: index_handler_def template_records_def)
qed

text \<open>
  C5, amended. For two stores that have the same keys, usernames and \<open>createdAt\<close>
  values in the same order, and differ in the stored password hashes in any way, the
  usernames and creation timestamps of the listed users are the same, in the same order;
  and every template whose page depends only on the usernames and \<open>createdAt\<close> values
  of the users it is handed renders the same page for both.
\<close>

theorem listing_public_fields:
  assumes "public_entries kv = public_entries kv'"
  shows "map listed_fields (recent_users kv) = map listed_fields (recent_users kv')
    \<and> (\<forall>template.
          (\<forall>us us'. map listed_fields us = map listed_fields us' \<longrightarrow>
             template us timestamp = template us' timestamp) \<longrightarrow>
          index_handler template timestamp kv = index_handler template timestamp kv')"
proof -
  have same: "map listed_fields (recent_users kv) = map listed_fields (recent_users kv')"
    using assms by (simp only: recent_users_public)
  have "index_handler template timestamp kv = index_handler template timestamp kv'"
    if reads: "\<forall>us us'. map listed_fields us = map listed_fields us' \<longrightarrow>
             template us timestamp = template us' timestamp" for template :: "User list \<Rightarrow> js_string \<Rightarrow> 'a"
    unfolding index_handler_def by (rule reads [rule_format, OF same])
  with same show ?thesis by (intro conjI allI impI)
qed

theorem listing_public_fields_witness:
  "public_entries kv_alice = public_entries kv_alice_other_hash
   \<and> kv_alice \<noteq> kv_alice_other_hash
   \<and> map listed_fields (recent_users kv_alice)
       = map listed_fields (recent_users kv_alice_other_hash)
   \<and> index_handler template_public [] kv_alice
       = index_handler template_public [] kv_alice_other_hash"
proof -
  have same: "public_entries kv_alice = public_entries kv_alice_other_hash"
    by (simp add: public_entries_def public_entry_def kv_alice_eq kv_alice_other_hash_eq)
  have differ: "kv_alice \<noteq> kv_alice_other_hash"
    by (simp add: kv_alice_eq kv_alice_other_hash_eq example_env_def str_hunter2_def)
  have reads: "template_public us [] = template_public us' []"
    if "map listed_fields us = map listed_fields us'" for us us'
    using that by (simp add: template_public_def)
  have fields: "map listed_fields (recent_users kv_alice)
       = map listed_fields (recent_users kv_alice_other_hash)"
    by (rule listing_public_fields [OF same, of "[]", THEN conjunct1])
  have page: "index_handler template_public [] kv_alice
       = index_handler template_public [] kv_alice_other_hash"
    by (rule listing_public_fields [OF same, of "[]", THEN conjunct2, rule_format,
          of template_public]) (rule reads)
  from same differ fields page show ?thesis by (intro conjI)
qed

end
